theory Spec2Isabelle
  imports Main "HOL-Library.Word" "HOL-Library.Sublist"
begin

section \<open>recursearch: data model\<close>

text \<open>
  The program walks a directory, tests every file name against a search string,
  extracts tar, zip, 7z and rar archives into temporary directories and recurses into
  them, and tests the content of every other file as bytes and as text.

  A Python \<^verbatim>\<open>str\<close> is a \<^typ>\<open>string\<close>, a \<^verbatim>\<open>bytes\<close> value a list of 8-bit words.
  A \<^verbatim>\<open>pathlib.Path\<close> is the list of its parts; an absolute path has an empty first
  part. \<^verbatim>\<open>string in data\<close> is \<^const>\<open>sublist\<close> (contiguous) on both types.
\<close>

type_synonym byte = "8 word"
type_synonym bytes = "byte list"
type_synonym path = "string list"

fun str :: "path \<Rightarrow> string" where
  "str [] = ''.''"
| "str [s] = (if s = [] then ''/'' else s)"
| "str (s # t # ps) = s @ ''/'' @ str (t # ps)"

text \<open>
  Exceptions are values. The classes named in the source's \<^verbatim>\<open>except\<close> clauses are
  \<open>EOFError\<close>, \<open>UnsupportedCompressionMethodError\<close> (py7zr), \<open>BadRarFile\<close> (rarfile) and
  \<open>UnicodeDecodeError\<close>; the others are what the libraries and the interpreter raise
  besides. \<open>SystemExit\<close> is what \<^verbatim>\<open>sys.exit\<close> raises.
\<close>

datatype exn =
    EOFError
  | TarReadError
  | BadZipFile
  | UnsupportedCompressionMethodError
  | Bad7zFile
  | BadRarFile
  | OSError
  | UnicodeDecodeError
  | UnicodeEncodeError
  | RecursionError
  | SystemExit int

text \<open>
  A file is what reading it in binary mode gives: its bytes, or the exception that
  \<^verbatim>\<open>open\<close> raises. A directory lists its entries in the order the system returns them.
\<close>

type_synonym content = "exn + bytes"

datatype fsnode = File string content | Dir string "fsnode list"

datatype fmt = Tar | Zip | SevenZip | Rar

fun fmt_name :: "fmt \<Rightarrow> string" where
  "fmt_name Tar = ''tar''"
| "fmt_name Zip = ''zip''"
| "fmt_name SevenZip = ''7z''"
| "fmt_name Rar = ''rar''"

text \<open>
  The libraries are parameters: the four format probes, the four extractions (the
  entries that \<^verbatim>\<open>extractall\<close> writes into the temporary directory, or the exception it
  raises), \<^verbatim>\<open>bytes(string, encoding)\<close>, reading a file in text mode, and the names that
  \<^verbatim>\<open>tempfile.TemporaryDirectory\<close> chooses (the n-th directory created in a run).
\<close>

record env =
  is_tarfile :: "content \<Rightarrow> exn + bool"
  is_zipfile :: "content \<Rightarrow> exn + bool"
  is_7zfile :: "content \<Rightarrow> exn + bool"
  is_rarfile :: "content \<Rightarrow> exn + bool"
  tar_extractall :: "content \<Rightarrow> exn + fsnode list"
  zip_extractall :: "content \<Rightarrow> exn + fsnode list"
  sevenzip_extractall :: "content \<Rightarrow> exn + fsnode list"
  rar_extractall :: "content \<Rightarrow> exn + fsnode list"
  encode :: "string \<Rightarrow> string \<Rightarrow> exn + bytes"
  read_text :: "bytes \<Rightarrow> exn + string"
  mkdtemp :: "nat \<Rightarrow> path"

definition BINARY_TEXT_ENCODINGS :: "string list" where
  "BINARY_TEXT_ENCODINGS = [''UTF-8'', ''EUC-JP'', ''Shift-JIS'']"

definition LOG_LEVEL :: int where
  "LOG_LEVEL = 1"

subsection \<open>Output and global state\<close>

text \<open>
  A printed line is kept as its colour, the indentation level at the time and the
  message; \<open>render\<close> gives the text the source prints. The globals \<^verbatim>\<open>found_paths\<close>
  and \<^verbatim>\<open>INDENT_LEVEL\<close>, the lines printed so far and the number of temporary
  directories created so far make up the state.
\<close>

datatype colour = Plain | YELLOW | RED | GREEN

datatype msg =
    Entering path
  | Extracting fmt path
  | FailedToExtract fmt path
  | FoundInFilename string path
  | FoundWithEncoding string path string
  | FoundInText string path
  | Message string

fun text_of :: "msg \<Rightarrow> string" where
  "text_of (Entering p) = ''Entering '' @ str p"
| "text_of (Extracting k p) = ''Extracting '' @ fmt_name k @ '' '' @ str p"
| "text_of (FailedToExtract k p) = ''Failed to extract '' @ fmt_name k @ '' '' @ str p"
| "text_of (FoundInFilename s p) = ''Found '' @ s @ '' in filename: '' @ str p"
| "text_of (FoundWithEncoding s p e) =
     ''Found '' @ s @ '' in '' @ str p @ '' with encoding '' @ e"
| "text_of (FoundInText s p) = ''Found '' @ s @ '' in '' @ str p"
| "text_of (Message s) = s"

type_synonym line = "colour \<times> int \<times> msg"

fun render :: "line \<Rightarrow> colour \<times> string" where
  "render (c, i, m) = (c, replicate (nat i) (CHR '' '') @ text_of m)"

record state =
  found_paths :: "string list"
  INDENT_LEVEL :: int
  printed :: "line list"
  tempdirs :: nat

definition initial :: state where
  "initial = \<lparr>found_paths = [], INDENT_LEVEL = 0, printed = [], tempdirs = 0\<rparr>"

definition print :: "colour \<Rightarrow> msg \<Rightarrow> state \<Rightarrow> state" where
  "print c m st = st\<lparr>printed := printed st @ [(c, INDENT_LEVEL st, m)]\<rparr>"

definition info :: "msg \<Rightarrow> state \<Rightarrow> state" where
  "info m st = (if LOG_LEVEL \<le> 1 then print Plain m st else st)"

definition warn :: "msg \<Rightarrow> state \<Rightarrow> state" where
  "warn m st = print YELLOW m st"

definition error :: "msg \<Rightarrow> state \<Rightarrow> (exn + unit) \<times> state" where
  "error m st = (Inl (SystemExit 1), print RED m st)"

definition success :: "msg \<Rightarrow> state \<Rightarrow> state" where
  "success m st = print GREEN m st"

section \<open>The handlers\<close>

type_synonym 'a run = "state \<Rightarrow> (exn + 'a) \<times> state"

text \<open>
  Each archive handler prints, creates a temporary directory, extracts and calls
  \<^verbatim>\<open>search\<close> on the directory; \<open>rec\<close> is that call. \<open>handle_tar\<close>, \<open>handle_7z\<close> and
  \<open>handle_rar\<close> catch one exception class each; \<open>handle_zip\<close> has no \<^verbatim>\<open>try\<close>.
\<close>

type_synonym searcher = "path \<Rightarrow> path \<Rightarrow> fsnode list option \<Rightarrow> string \<Rightarrow> unit run"

definition new_tempdir :: "env \<Rightarrow> state \<Rightarrow> path \<times> state" where
  "new_tempdir env st = (mkdtemp env (tempdirs st), st\<lparr>tempdirs := tempdirs st + 1\<rparr>)"

definition handle_tar :: "searcher \<Rightarrow> env \<Rightarrow> path \<Rightarrow> path \<Rightarrow> content \<Rightarrow> string \<Rightarrow> unit run" where
  "handle_tar rec env semantic_path path f string st =
     (let st1 = info (Extracting Tar path) st;
          (tempdir, st2) = new_tempdir env st1
      in case tar_extractall env f of
           Inl e \<Rightarrow>
             if e = EOFError then (Inr (), warn (FailedToExtract Tar path) st2)
             else (Inl e, st2)
         | Inr extracted \<Rightarrow> rec semantic_path tempdir (Some extracted) string st2)"

definition handle_zip :: "searcher \<Rightarrow> env \<Rightarrow> path \<Rightarrow> path \<Rightarrow> content \<Rightarrow> string \<Rightarrow> unit run" where
  "handle_zip rec env semantic_path path f string st =
     (let st1 = info (Extracting Zip path) st;
          (tempdir, st2) = new_tempdir env st1
      in case zip_extractall env f of
           Inl e \<Rightarrow> (Inl e, st2)
         | Inr extracted \<Rightarrow> rec semantic_path tempdir (Some extracted) string st2)"

definition handle_7z :: "searcher \<Rightarrow> env \<Rightarrow> path \<Rightarrow> path \<Rightarrow> content \<Rightarrow> string \<Rightarrow> unit run" where
  "handle_7z rec env semantic_path path f string st =
     (let st1 = info (Extracting SevenZip path) st;
          (tempdir, st2) = new_tempdir env st1
      in case sevenzip_extractall env f of
           Inl e \<Rightarrow>
             if e = UnsupportedCompressionMethodError
             then (Inr (), warn (FailedToExtract SevenZip path) st2)
             else (Inl e, st2)
         | Inr extracted \<Rightarrow> rec semantic_path tempdir (Some extracted) string st2)"

definition handle_rar :: "searcher \<Rightarrow> env \<Rightarrow> path \<Rightarrow> path \<Rightarrow> content \<Rightarrow> string \<Rightarrow> unit run" where
  "handle_rar rec env semantic_path path f string st =
     (let st1 = info (Extracting Rar path) st;
          (tempdir, st2) = new_tempdir env st1
      in case rar_extractall env f of
           Inl e \<Rightarrow>
             if e = BadRarFile then (Inr (), warn (FailedToExtract Rar path) st2)
             else (Inl e, st2)
         | Inr extracted \<Rightarrow> rec semantic_path tempdir (Some extracted) string st2)"

text \<open>
  \<open>handle_bin\<close> opens the file in binary mode, outside any \<^verbatim>\<open>try\<close>, and tries the
  encodings in the order of the list; \<^verbatim>\<open>bytes(string, encoding)\<close> may raise.
\<close>

fun handle_bin_loop :: "env \<Rightarrow> path \<Rightarrow> string \<Rightarrow> bytes \<Rightarrow> string list \<Rightarrow> bool run" where
  "handle_bin_loop env path string data [] st = (Inr False, st)"
| "handle_bin_loop env path string data (encoding # encodings) st =
     (case encode env encoding string of
        Inl e \<Rightarrow> (Inl e, st)
      | Inr bs \<Rightarrow>
          if sublist bs data
          then (Inr True, success (FoundWithEncoding string path encoding) st)
          else handle_bin_loop env path string data encodings st)"

definition handle_bin :: "env \<Rightarrow> path \<Rightarrow> path \<Rightarrow> content \<Rightarrow> string \<Rightarrow> bool run" where
  "handle_bin env semantic_path path f string st =
     (case f of
        Inl e \<Rightarrow> (Inl e, st)
      | Inr data \<Rightarrow> handle_bin_loop env path string data BINARY_TEXT_ENCODINGS st)"

text \<open>
  \<open>handle_text\<close> opens and reads the file in text mode inside a \<^verbatim>\<open>try\<close> that catches
  \<open>UnicodeDecodeError\<close> only.
\<close>

definition handle_text :: "env \<Rightarrow> path \<Rightarrow> path \<Rightarrow> content \<Rightarrow> string \<Rightarrow> bool run" where
  "handle_text env semantic_path path f string st =
     (case (case f of Inl e \<Rightarrow> Inl e | Inr bs \<Rightarrow> read_text env bs) of
        Inl e \<Rightarrow> if e = UnicodeDecodeError then (Inr False, st) else (Inl e, st)
      | Inr data \<Rightarrow>
          if sublist string data then (Inr True, success (FoundInText string path) st)
          else (Inr False, st))"

section \<open>The traversal\<close>

text \<open>
  \<^verbatim>\<open>os.walk\<close> yields a directory's files before it descends into its subdirectories,
  in order, and yields nothing for a path that is not a directory (it ignores the error
  of listing it, as no \<^verbatim>\<open>onerror\<close> is given): \<open>None\<close> is such a path.
\<close>

fun files_of :: "fsnode list \<Rightarrow> (string \<times> content) list" where
  "files_of [] = []"
| "files_of (File name f # es) = (name, f) # files_of es"
| "files_of (Dir name sub # es) = files_of es"

fun walk :: "path \<Rightarrow> fsnode list \<Rightarrow> (path \<times> (string \<times> content) list) list"
  and walk_dirs :: "path \<Rightarrow> fsnode list \<Rightarrow> (path \<times> (string \<times> content) list) list" where
  "walk here es = (here, files_of es) # walk_dirs here es"
| "walk_dirs here [] = []"
| "walk_dirs here (File name f # es) = walk_dirs here es"
| "walk_dirs here (Dir name sub # es) = walk (here @ [name]) sub @ walk_dirs here es"

definition os_walk :: "path \<Rightarrow> fsnode list option \<Rightarrow> (path \<times> (string \<times> content) list) list" where
  "os_walk here dir = (case dir of None \<Rightarrow> [] | Some es \<Rightarrow> walk here es)"

text \<open>A \<^verbatim>\<open>for\<close> loop whose body may raise: the exception ends the loop.\<close>

fun for_each :: "('a \<Rightarrow> unit run) \<Rightarrow> 'a list \<Rightarrow> unit run" where
  "for_each body [] st = (Inr (), st)"
| "for_each body (x # xs) st =
     (case body x st of
        (Inl e, st') \<Rightarrow> (Inl e, st')
      | (Inr u, st') \<Rightarrow> for_each body xs st')"

text \<open>
  The body of the inner loop of \<^verbatim>\<open>search\<close>, for the file \<open>file\<close> of directory \<open>root\<close>.
  \<^verbatim>\<open>INDENT_LEVEL -= 1\<close> is the last statement: it runs when the handler returns.
\<close>

definition dedent :: "(exn + 'a) \<times> state \<Rightarrow> (exn + unit) \<times> state" where
  "dedent r =
     (case r of
        (Inl e, st) \<Rightarrow> (Inl e, st)
      | (Inr v, st) \<Rightarrow> (Inr (), st\<lparr>INDENT_LEVEL := INDENT_LEVEL st - 1\<rparr>))"

definition search_file ::
  "searcher \<Rightarrow> env \<Rightarrow> path \<Rightarrow> path \<Rightarrow> string \<Rightarrow> string \<times> content \<Rightarrow> unit run" where
  "search_file rec env semantic_path root string entry st =
     (let file = fst entry; f = snd entry;
          file_path = root @ [file];
          st1 = (if sublist string (str file_path)
                 then (success (FoundInFilename string file_path) st)
                        \<lparr>found_paths := found_paths st @ [str file_path]\<rparr>
                 else st);
          st2 = st1\<lparr>INDENT_LEVEL := INDENT_LEVEL st1 + 1\<rparr>
      in case is_tarfile env f of
           Inl e \<Rightarrow> (Inl e, st2)
         | Inr True \<Rightarrow> dedent (handle_tar rec env (semantic_path @ [file]) file_path f string st2)
         | Inr False \<Rightarrow>
      (case is_zipfile env f of
           Inl e \<Rightarrow> (Inl e, st2)
         | Inr True \<Rightarrow> dedent (handle_zip rec env (semantic_path @ [file]) file_path f string st2)
         | Inr False \<Rightarrow>
      (case is_7zfile env f of
           Inl e \<Rightarrow> (Inl e, st2)
         | Inr True \<Rightarrow> dedent (handle_7z rec env (semantic_path @ [file]) file_path f string st2)
         | Inr False \<Rightarrow>
      (case is_rarfile env f of
           Inl e \<Rightarrow> (Inl e, st2)
         | Inr True \<Rightarrow> dedent (handle_rar rec env (semantic_path @ [file]) file_path f string st2)
         | Inr False \<Rightarrow>
      (case handle_bin env (semantic_path @ [file]) file_path f string st2 of
           (Inl e, st3) \<Rightarrow> (Inl e, st3)
         | (Inr found, st3) \<Rightarrow>
             if \<not> found
             then dedent (handle_text env (semantic_path @ [file]) file_path f string st3)
             else dedent (Inr (), st3))))))"

text \<open>
  \<^verbatim>\<open>search\<close> calls itself through the handlers, once per level of archive nesting. The
  interpreter bounds the depth of the call stack and raises \<open>RecursionError\<close> beyond it;
  the first argument is the number of nested \<^verbatim>\<open>search\<close> calls that still fit.
\<close>

primrec search :: "nat \<Rightarrow> env \<Rightarrow> searcher" where
  "search 0 env = (\<lambda>semantic_path path dir string st. (Inl RecursionError, st))"
| "search (Suc d) env = (\<lambda>semantic_path path dir string st.
     for_each
       (\<lambda>(root, files). for_each (search_file (search d env) env semantic_path root string) files)
       (os_walk path dir)
       (info (Entering semantic_path) st))"

text \<open>
  The script: \<^verbatim>\<open>search(path, path, string)\<close> from the initial globals. The exit status
  is 0 when the call returns, the argument of \<^verbatim>\<open>sys.exit\<close> when \<open>SystemExit\<close> escapes,
  and 1 when another exception does.
\<close>

definition main :: "nat \<Rightarrow> env \<Rightarrow> string \<Rightarrow> path \<Rightarrow> fsnode list option \<Rightarrow> int \<times> state" where
  "main limit env string path dir =
     (case search limit env path path dir string initial of
        (Inr u, st) \<Rightarrow> (0, st)
      | (Inl (SystemExit c), st) \<Rightarrow> (c, st)
      | (Inl e, st) \<Rightarrow> (1, st))"

section \<open>A concrete environment\<close>

text \<open>
  An instance of the library parameters, for evaluating the program on concrete
  directories. A file is recognised by the first bytes of its content; what an archive
  extracts to is given by a table from archive contents to entries (or the exception of
  the extraction). The codecs are the ASCII part that UTF-8, EUC-JP and Shift-JIS share;
  the n-th temporary directory is \<^verbatim>\<open>/tmp/x...x\<close> with n+1 letters.
\<close>

definition ascii :: "string \<Rightarrow> bytes" where
  "ascii s = map (\<lambda>c. of_nat (of_char c)) s"

definition demo_probe :: "string \<Rightarrow> content \<Rightarrow> exn + bool" where
  "demo_probe magic f = (case f of Inl e \<Rightarrow> Inl e | Inr bs \<Rightarrow> Inr (prefix (ascii magic) bs))"

definition demo_extract ::
  "(bytes \<times> (exn + fsnode list)) list \<Rightarrow> exn \<Rightarrow> content \<Rightarrow> exn + fsnode list" where
  "demo_extract archives bad f =
     (case f of
        Inl e \<Rightarrow> Inl e
      | Inr bs \<Rightarrow> (case map_of archives bs of None \<Rightarrow> Inl bad | Some r \<Rightarrow> r))"

definition demo_encode :: "string \<Rightarrow> string \<Rightarrow> exn + bytes" where
  "demo_encode encoding s =
     (if list_all (\<lambda>c. (of_char c :: nat) < 128) s then Inr (ascii s)
      else Inl UnicodeEncodeError)"

definition demo_read_text :: "bytes \<Rightarrow> exn + string" where
  "demo_read_text bs =
     (if list_all (\<lambda>b. b < 128) bs then Inr (map (\<lambda>b. char_of (unat b)) bs)
      else Inl UnicodeDecodeError)"

definition demo_mkdtemp :: "nat \<Rightarrow> path" where
  "demo_mkdtemp n = ['''', ''tmp'', replicate (Suc n) (CHR ''x'')]"

definition demo_env :: "(bytes \<times> (exn + fsnode list)) list \<Rightarrow> env" where
  "demo_env archives =
     \<lparr>is_tarfile = demo_probe ''TAR'',
      is_zipfile = demo_probe ''PK'',
      is_7zfile = demo_probe ''7z'',
      is_rarfile = demo_probe ''Rar!'',
      tar_extractall = demo_extract archives TarReadError,
      zip_extractall = demo_extract archives BadZipFile,
      sevenzip_extractall = demo_extract archives Bad7zFile,
      rar_extractall = demo_extract archives BadRarFile,
      encode = demo_encode,
      read_text = demo_read_text,
      mkdtemp = demo_mkdtemp\<rparr>"

section \<open>What a run prints and records\<close>

text \<open>
  The definitions of this section are not functions of the source: they state what the
  theorems below say about it.

  The file names that a list of printed lines reports as filename matches, in order.
  \<open>grows i st st'\<close>: from \<open>st\<close> to \<open>st'\<close> lines were only appended to the output, all at
  indentation \<open>i\<close> or deeper, and \<^verbatim>\<open>found_paths\<close> was extended by exactly the file names of
  the appended filename matches. \<open>keeps st r\<close>: the result \<open>r\<close> of a call started in \<open>st\<close>
  has grown so at the indentation of \<open>st\<close>, and a call that returns has restored
  \<^verbatim>\<open>INDENT_LEVEL\<close>. \<open>checked\<close> is the state after the filename test of a file.
\<close>

fun filename_match :: "line \<Rightarrow> string list" where
  "filename_match (c, i, FoundInFilename s p) = [str p]"
| "filename_match (c, i, m) = []"

definition filename_matches :: "line list \<Rightarrow> string list" where
  "filename_matches ls = concat (map filename_match ls)"

definition grows :: "int \<Rightarrow> state \<Rightarrow> state \<Rightarrow> bool" where
  "grows i st st' =
     (\<exists>ls. printed st' = printed st @ ls \<and>
           found_paths st' = found_paths st @ filename_matches ls \<and>
           list_all (\<lambda>l. i \<le> fst (snd l)) ls)"

definition keeps :: "state \<Rightarrow> (exn + 'a) \<times> state \<Rightarrow> bool" where
  "keeps st r =
     (grows (INDENT_LEVEL st) st (snd r) \<and>
      (case fst r of Inl e \<Rightarrow> True | Inr v \<Rightarrow> INDENT_LEVEL (snd r) = INDENT_LEVEL st))"

definition checked :: "string \<Rightarrow> path \<Rightarrow> state \<Rightarrow> state" where
  "checked string file_path st =
     (if sublist string (str file_path)
      then (success (FoundInFilename string file_path) st)
             \<lparr>found_paths := found_paths st @ [str file_path]\<rparr>
      else st)"

subsection \<open>Encodings\<close>

text \<open>
  \<open>encodable\<close>: \<^verbatim>\<open>bytes(string, encoding)\<close> returns. \<open>matches\<close>: it returns bytes that occur
  in the data. \<open>nested\<close>: along the list, an encoding that cannot encode the string is
  followed only by encodings that cannot either (Python's UTF-8 encodes every string
  that its EUC-JP codec encodes, and EUC-JP every string that Shift-JIS encodes).
\<close>

definition encodable :: "env \<Rightarrow> string \<Rightarrow> string \<Rightarrow> bool" where
  "encodable env string encoding =
     (case encode env encoding string of Inl e \<Rightarrow> False | Inr bs \<Rightarrow> True)"

definition matches :: "env \<Rightarrow> string \<Rightarrow> bytes \<Rightarrow> string \<Rightarrow> bool" where
  "matches env string data encoding =
     (case encode env encoding string of Inl e \<Rightarrow> False | Inr bs \<Rightarrow> sublist bs data)"

fun nested :: "env \<Rightarrow> string \<Rightarrow> string list \<Rightarrow> bool" where
  "nested env string [] = True"
| "nested env string (encoding # encodings) =
     ((encodable env string encoding \<or> list_all (\<lambda>e. \<not> encodable env string e) encodings) \<and>
      nested env string encodings)"

subsection \<open>The records of one file\<close>

text \<open>
  \<open>entered\<close> is the state in which a file is classified: after the filename test, one
  indentation level deeper. \<open>filename_record\<close> and \<open>content_record\<close> say what is to be
  reported for a file: a filename match when the path contains the string; a binary
  match with the first encoding of the list under which the encoded string occurs in
  the bytes and, only when there is none, a text match when the decoded text contains
  the string. \<open>at_level\<close> is the line of such a report.
\<close>

definition entered :: "string \<Rightarrow> path \<Rightarrow> state \<Rightarrow> state" where
  "entered string file_path st = (checked string file_path st)\<lparr>INDENT_LEVEL := INDENT_LEVEL st + 1\<rparr>"

definition content_record :: "env \<Rightarrow> string \<Rightarrow> path \<Rightarrow> content \<Rightarrow> msg option" where
  "content_record env string file_path f =
     (case f of
        Inl e \<Rightarrow> None
      | Inr data \<Rightarrow>
          (case find (matches env string data) BINARY_TEXT_ENCODINGS of
             Some encoding \<Rightarrow> Some (FoundWithEncoding string file_path encoding)
           | None \<Rightarrow>
               (case read_text env data of
                  Inl e \<Rightarrow> None
                | Inr decoded \<Rightarrow>
                    if sublist string decoded then Some (FoundInText string file_path)
                    else None)))"

definition filename_record :: "string \<Rightarrow> path \<Rightarrow> msg option" where
  "filename_record string file_path =
     (if sublist string (str file_path) then Some (FoundInFilename string file_path) else None)"

fun at_level :: "int \<Rightarrow> msg option \<Rightarrow> line list" where
  "at_level i None = []"
| "at_level i (Some m) = [(GREEN, i, m)]"

section \<open>Output is append-only\<close>

lemma filename_matches_simps [simp]:
  "filename_matches [] = []"
  "filename_matches (ls @ ms) = filename_matches ls @ filename_matches ms"
  "filename_matches (l # ls) = filename_match l @ filename_matches ls"
  by (simp_all add: filename_matches_def)

lemma grows_refl [simp]: "grows i st st"
  by (simp add: grows_def)

lemma grows_trans: "grows i a b \<Longrightarrow> grows i b c \<Longrightarrow> grows i a c"
  unfolding grows_def
  by (elim exE conjE, rule_tac x = "ls @ lsa" in exI) simp

lemma grows_weaken: "grows i a b \<Longrightarrow> j \<le> i \<Longrightarrow> grows j a b"
  unfolding grows_def
  by (elim exE conjE, rule_tac x = ls in exI) (auto simp: list_all_iff)

lemma grows_print:
  "filename_match (c, INDENT_LEVEL st, m) = [] \<Longrightarrow> i \<le> INDENT_LEVEL st \<Longrightarrow> grows i st (print c m st)"
  by (simp add: grows_def print_def)

lemma grows_fields [simp]:
  "grows i st (st\<lparr>INDENT_LEVEL := k\<rparr>)"
  "grows i st (st\<lparr>tempdirs := n\<rparr>)"
  by (simp_all add: grows_def)

lemma keeps_same [simp]: "keeps st (r, st)"
  by (simp add: keeps_def split: sum.splits)

lemma keeps_print [simp]:
  "filename_match (c, INDENT_LEVEL st, m) = [] \<Longrightarrow> keeps st (r, print c m st)"
  by (simp add: keeps_def grows_def print_def split: sum.splits)

lemma keeps_after:
  assumes "grows (INDENT_LEVEL st) st st1" "INDENT_LEVEL st1 = INDENT_LEVEL st" "keeps st1 r"
  shows "keeps st r"
  using assms by (auto simp: keeps_def intro: grows_trans split: sum.splits)

lemma keeps_after_print:
  assumes "filename_match (c, INDENT_LEVEL st, m) = []" "keeps (print c m st) r"
  shows "keeps st r"
proof (rule keeps_after [OF _ _ assms(2)])
  show "grows (INDENT_LEVEL st) st (print c m st)"
    using assms(1) by (simp add: grows_print)
  show "INDENT_LEVEL (print c m st) = INDENT_LEVEL st"
    by (simp add: print_def)
qed

lemma keeps_after_tempdir:
  assumes "keeps (st\<lparr>tempdirs := n\<rparr>) r"
  shows "keeps st r"
  by (rule keeps_after [OF _ _ assms]) simp_all

lemma handle_bin_loop_keeps: "keeps st (handle_bin_loop env p s data encs st)"
  by (induction encs) (simp_all add: success_def split: sum.splits)

lemma handle_bin_keeps: "keeps st (handle_bin env sp p f s st)"
  by (simp add: handle_bin_def handle_bin_loop_keeps split: sum.splits)

lemma handle_text_keeps: "keeps st (handle_text env sp p f s st)"
  by (simp add: handle_text_def success_def split: sum.splits)

lemma keeps_prologue:
  assumes "filename_match (Plain, INDENT_LEVEL st, m) = []"
    and "keeps (snd (new_tempdir env (info m st))) r"
  shows "keeps st r"
proof -
  have "keeps (info m st) r"
    using assms(2) unfolding new_tempdir_def snd_conv by (rule keeps_after_tempdir)
  then show ?thesis
    using assms(1) unfolding info_def LOG_LEVEL_def by (auto intro: keeps_after_print)
qed

lemma handle_tar_keeps:
  assumes "\<And>sp p dir s st. keeps st (rec sp p dir s st)"
  shows "keeps st (handle_tar rec env sp p f s st)"
proof (rule keeps_prologue [where m = "Extracting Tar p" and env = env])
  show "keeps (snd (new_tempdir env (info (Extracting Tar p) st))) (handle_tar rec env sp p f s st)"
    by (simp add: handle_tar_def new_tempdir_def warn_def Let_def assms split: sum.splits)
qed simp

lemma handle_zip_keeps:
  assumes "\<And>sp p dir s st. keeps st (rec sp p dir s st)"
  shows "keeps st (handle_zip rec env sp p f s st)"
proof (rule keeps_prologue [where m = "Extracting Zip p" and env = env])
  show "keeps (snd (new_tempdir env (info (Extracting Zip p) st))) (handle_zip rec env sp p f s st)"
    by (simp add: handle_zip_def new_tempdir_def Let_def assms split: sum.splits)
qed simp

lemma handle_7z_keeps:
  assumes "\<And>sp p dir s st. keeps st (rec sp p dir s st)"
  shows "keeps st (handle_7z rec env sp p f s st)"
proof (rule keeps_prologue [where m = "Extracting SevenZip p" and env = env])
  show "keeps (snd (new_tempdir env (info (Extracting SevenZip p) st)))
          (handle_7z rec env sp p f s st)"
    by (simp add: handle_7z_def new_tempdir_def warn_def Let_def assms split: sum.splits)
qed simp

lemma handle_rar_keeps:
  assumes "\<And>sp p dir s st. keeps st (rec sp p dir s st)"
  shows "keeps st (handle_rar rec env sp p f s st)"
proof (rule keeps_prologue [where m = "Extracting Rar p" and env = env])
  show "keeps (snd (new_tempdir env (info (Extracting Rar p) st))) (handle_rar rec env sp p f s st)"
    by (simp add: handle_rar_def new_tempdir_def warn_def Let_def assms split: sum.splits)
qed simp

lemma keeps_dedent:
  assumes "grows (INDENT_LEVEL st) st st2" "INDENT_LEVEL st2 = INDENT_LEVEL st + 1" "keeps st2 r"
  shows "keeps st (dedent r)"
proof -
  obtain x s where r: "r = (x, s)" by (cases r)
  have "grows (INDENT_LEVEL st) st2 s"
    using assms(2,3) r by (auto simp: keeps_def intro: grows_weaken)
  with assms(1) have "grows (INDENT_LEVEL st) st s" by (rule grows_trans)
  then have "grows (INDENT_LEVEL st) st (s\<lparr>INDENT_LEVEL := INDENT_LEVEL s - 1\<rparr>)"
    by (simp add: grows_def)
  with \<open>grows (INDENT_LEVEL st) st s\<close> show ?thesis
    using assms(2,3) r by (cases x) (auto simp: keeps_def dedent_def)
qed

lemma keeps_raise:
  assumes "grows (INDENT_LEVEL st) st st2"
  shows "keeps st (Inl e, st2)"
  using assms by (simp add: keeps_def)

lemma grows_checked: "grows (INDENT_LEVEL st) st ((checked s p st)\<lparr>INDENT_LEVEL := k\<rparr>)"
  by (simp add: checked_def grows_def success_def print_def)

lemma probe_cases:
  fixes a b :: "(exn + 'a) \<times> state"
  assumes "\<And>e. P (Inl e :: exn + 'a, s2)" "P a" "P b"
  shows "P (case probe of Inl e \<Rightarrow> (Inl e, s2) | Inr True \<Rightarrow> a | Inr False \<Rightarrow> b)"
  using assms by (simp split: sum.splits bool.splits)

lemma search_file_keeps:
  assumes "\<And>sp p dir s st. keeps st (rec sp p dir s st)"
  shows "keeps st (search_file rec env sp root s entry st)"
proof -
  let ?p = "root @ [fst entry]"
  let ?st2 = "(checked s ?p st)\<lparr>INDENT_LEVEL := INDENT_LEVEL (checked s ?p st) + 1\<rparr>"
  have g: "grows (INDENT_LEVEL st) st ?st2" by (rule grows_checked)
  have i: "INDENT_LEVEL ?st2 = INDENT_LEVEL st + 1"
    by (simp add: checked_def success_def print_def)
  note d = keeps_dedent [OF g i]
  have bn: "keeps st (dedent (Inr (), st3))" if "keeps ?st2 (Inr True, st3)" for st3
    using d [OF that] by (simp add: dedent_def)
  have tx: "keeps st (dedent (handle_text env (sp @ [fst entry]) ?p (snd entry) s st3))"
    if "keeps ?st2 (Inr False, st3)" for st3
  proof -
    have "keeps st3 (handle_text env (sp @ [fst entry]) ?p (snd entry) s st3)"
      by (rule handle_text_keeps)
    with that have "keeps ?st2 (handle_text env (sp @ [fst entry]) ?p (snd entry) s st3)"
      by (auto simp: keeps_def intro: grows_trans split: sum.splits)
    then show ?thesis by (rule d)
  qed
  have err: "keeps st (Inl e, st3)" if "keeps ?st2 (Inl e, st3)" for st3 e
  proof -
    from that i have "grows (INDENT_LEVEL st + 1) ?st2 st3" by (simp add: keeps_def)
    then have "grows (INDENT_LEVEL st) ?st2 st3" by (rule grows_weaken) simp
    with g have "grows (INDENT_LEVEL st) st st3" by (rule grows_trans)
    then show ?thesis by (rule keeps_raise)
  qed
  have other: "keeps st
     (case handle_bin env (sp @ [fst entry]) ?p (snd entry) s ?st2 of
        (Inl e, st3) \<Rightarrow> (Inl e, st3)
      | (Inr found, st3) \<Rightarrow>
          if \<not> found
          then dedent (handle_text env (sp @ [fst entry]) ?p (snd entry) s st3)
          else dedent (Inr (), st3))"
  proof -
    obtain x st3 where h: "handle_bin env (sp @ [fst entry]) ?p (snd entry) s ?st2 = (x, st3)"
      by (cases "handle_bin env (sp @ [fst entry]) ?p (snd entry) s ?st2")
    have "keeps ?st2 (x, st3)"
      using handle_bin_keeps [of ?st2 env "sp @ [fst entry]" ?p "snd entry" s] h by simp
    then show ?thesis
      unfolding h by (cases x) (auto intro: err bn tx)
  qed
  have raised: "keeps st (Inl e, ?st2)" for e
    by (rule keeps_raise [OF g])
  have tar: "keeps st (dedent (handle_tar rec env (sp @ [fst entry]) ?p (snd entry) s ?st2))"
    by (rule d, rule handle_tar_keeps, rule assms)
  have zip: "keeps st (dedent (handle_zip rec env (sp @ [fst entry]) ?p (snd entry) s ?st2))"
    by (rule d, rule handle_zip_keeps, rule assms)
  have sevenz: "keeps st (dedent (handle_7z rec env (sp @ [fst entry]) ?p (snd entry) s ?st2))"
    by (rule d, rule handle_7z_keeps, rule assms)
  have rar: "keeps st (dedent (handle_rar rec env (sp @ [fst entry]) ?p (snd entry) s ?st2))"
    by (rule d, rule handle_rar_keeps, rule assms)
  show ?thesis
    unfolding search_file_def Let_def checked_def [symmetric]
    by (intro probe_cases [where P = "keeps st"] raised tar zip sevenz rar other)
qed

lemma for_each_keeps:
  assumes "\<And>x st. keeps st (body x st)"
  shows "keeps st (for_each body xs st)"
proof (induction xs arbitrary: st)
  case Nil
  show ?case by simp
next
  case (Cons x xs)
  obtain r s where b: "body x st = (r, s)" by (cases "body x st")
  have k: "keeps st (r, s)" using assms [of st x] b by simp
  show ?case
  proof (cases r)
    case (Inl e)
    with k b show ?thesis by simp
  next
    case (Inr u)
    with k have "grows (INDENT_LEVEL st) st s" "INDENT_LEVEL s = INDENT_LEVEL st"
      by (simp_all add: keeps_def)
    then have "keeps st (for_each body xs s)"
      using Cons.IH [of s] by (rule keeps_after)
    with b Inr show ?thesis by simp
  qed
qed

lemma search_keeps: "keeps st (search d env sp p dir s st)"
proof (induction d arbitrary: sp p dir s st)
  case 0
  show ?case by simp
next
  case (Suc d)
  have "keeps (info (Entering sp) st)
     (for_each (\<lambda>(root, files). for_each (search_file (search d env) env sp root s) files)
        (os_walk p dir) (info (Entering sp) st))"
    by (rule for_each_keeps) (auto intro!: for_each_keeps search_file_keeps Suc.IH)
  then have "keeps (print Plain (Entering sp) st) (search (Suc d) env sp p dir s st)"
    by (simp add: info_def LOG_LEVEL_def)
  then show ?case
    by (rule keeps_after_print [rotated]) simp
qed

lemma snd_main: "snd (main limit env s p dir) = snd (search limit env p p dir s initial)"
  by (simp add: main_def split: prod.splits sum.splits exn.splits)

section \<open>The result list\<close>

text \<open>
  Claim C3, as the code has it: \<^verbatim>\<open>found_paths\<close> receives the filename matches only. From
  any state, whether \<^verbatim>\<open>search\<close> returns or raises, the lines it printed were appended to
  the output and \<^verbatim>\<open>found_paths\<close> was extended by exactly the file names of the filename
  matches among those lines, once each and in the order they were printed; nothing is
  removed. At the end of a run \<^verbatim>\<open>found_paths\<close> is the list of the filename matches
  printed. Text and binary content matches are printed and not appended.
\<close>

theorem found_paths_are_the_filename_matches:
  "(\<exists>ls. printed (snd (search d env sp p dir s st)) = printed st @ ls \<and>
         found_paths (snd (search d env sp p dir s st)) = found_paths st @ filename_matches ls) \<and>
   found_paths (snd (main limit env s p dir)) = filename_matches (printed (snd (main limit env s p dir)))"
proof
  have "keeps st (search d env sp p dir s st)" by (rule search_keeps)
  then show "\<exists>ls. printed (snd (search d env sp p dir s st)) = printed st @ ls \<and>
         found_paths (snd (search d env sp p dir s st)) = found_paths st @ filename_matches ls"
    by (auto simp: keeps_def grows_def)
  have "keeps initial (search limit env p p dir s initial)" by (rule search_keeps)
  then show "found_paths (snd (main limit env s p dir)) =
      filename_matches (printed (snd (main limit env s p dir)))"
    by (auto simp: snd_main keeps_def grows_def initial_def)
qed

text \<open>
  Claim C3 as stated fails: in a directory \<^verbatim>\<open>root\<close> holding \<^verbatim>\<open>notes.txt\<close> with the content
  \<^verbatim>\<open>the password is xyz42\<close>, the search for \<^verbatim>\<open>xyz42\<close> prints a binary content match and
  leaves \<^verbatim>\<open>found_paths\<close> empty.
\<close>

theorem content_match_not_in_found_paths:
  "printed (snd (main 3 (demo_env []) ''xyz42'' [''root'']
       (Some [File ''notes.txt'' (Inr (ascii ''the password is xyz42''))]))) =
     [(Plain, 0, Entering [''root'']),
      (GREEN, 1, FoundWithEncoding ''xyz42'' [''root'', ''notes.txt''] ''UTF-8'')] \<and>
   found_paths (snd (main 3 (demo_env []) ''xyz42'' [''root'']
       (Some [File ''notes.txt'' (Inr (ascii ''the password is xyz42''))]))) = []"
  by code_simp

section \<open>Binary matching\<close>

lemma success_inject:
  "(success (FoundWithEncoding s p e) st = success (FoundWithEncoding s p e') st) = (e = e')"
  by (auto simp: success_def print_def dest: arg_cong [where f = printed])

lemma not_encodable_not_matches: "\<not> encodable env s e \<Longrightarrow> \<not> matches env s data e"
  by (simp add: encodable_def matches_def split: sum.splits)

lemma matches_Inl: "encode env a s = Inl x \<Longrightarrow> matches env s data a = False"
  by (simp add: matches_def)

lemma matches_Inr: "encode env a s = Inr bs \<Longrightarrow> matches env s data a = sublist bs data"
  by (simp add: matches_def)

lemma handle_bin_loop_find:
  assumes "nested env s encs"
  shows "(handle_bin_loop env p s data encs st = (Inr True, success (FoundWithEncoding s p e) st)) =
         (find (matches env s data) encs = Some e)"
  using assms
proof (induction encs)
  case Nil
  show ?case by simp
next
  case (Cons a encs)
  show ?case
  proof (cases "encode env a s")
    case (Inl x)
    then have "\<not> encodable env s a" by (simp add: encodable_def)
    with Cons.prems have "list_all (\<lambda>e. \<not> encodable env s e) encs" by simp
    then have "find (matches env s data) encs = None"
      by (auto simp: find_None_iff list_all_iff dest: not_encodable_not_matches)
    with Inl show ?thesis by (simp add: matches_Inl)
  next
    case (Inr bs)
    show ?thesis
    proof (cases "sublist bs data")
      case True
      with Inr show ?thesis by (auto simp: matches_Inr success_inject)
    next
      case False
      with Inr Cons show ?thesis by (simp add: matches_Inr)
    qed
  qed
qed

lemma handle_bin_loop_True:
  "fst (handle_bin_loop env p s data encs st) = Inr True \<Longrightarrow>
   \<exists>e. find (matches env s data) encs = Some e \<and>
       handle_bin_loop env p s data encs st = (Inr True, success (FoundWithEncoding s p e) st)"
  by (induction encs) (auto simp: matches_Inl matches_Inr split: sum.splits if_splits)

text \<open>
  Claim C6: on the bytes \<open>data\<close> of a file, \<open>handle_bin\<close> reports a match with
  encoding \<open>e\<close> exactly when \<open>e\<close> is the first encoding of the list UTF-8, EUC-JP,
  Shift-JIS under which the encoded string occurs in \<open>data\<close>, and it reports a match
  exactly when some encoding of the list matches. The codecs are parameters, taken to
  be nested as Python's are.
\<close>

theorem handle_bin_first_matching_encoding:
  assumes "nested env s BINARY_TEXT_ENCODINGS"
  shows "(handle_bin env sp p (Inr data) s st = (Inr True, success (FoundWithEncoding s p e) st)) =
           (find (matches env s data) BINARY_TEXT_ENCODINGS = Some e) \<and>
         (fst (handle_bin env sp p (Inr data) s st) = Inr True) =
           (\<exists>e \<in> set BINARY_TEXT_ENCODINGS. matches env s data e)"
proof
  show a: "(handle_bin env sp p (Inr data) s st = (Inr True, success (FoundWithEncoding s p e) st)) =
        (find (matches env s data) BINARY_TEXT_ENCODINGS = Some e)" for e
    using assms by (simp add: handle_bin_def handle_bin_loop_find)
  show "(fst (handle_bin env sp p (Inr data) s st) = Inr True) =
           (\<exists>e \<in> set BINARY_TEXT_ENCODINGS. matches env s data e)"
  proof
    assume "fst (handle_bin env sp p (Inr data) s st) = Inr True"
    then obtain e where "find (matches env s data) BINARY_TEXT_ENCODINGS = Some e"
      using handle_bin_loop_True [of env p s data BINARY_TEXT_ENCODINGS st]
      by (auto simp: handle_bin_def)
    then show "\<exists>e \<in> set BINARY_TEXT_ENCODINGS. matches env s data e"
      by (auto simp: find_Some_iff)
  next
    assume "\<exists>e \<in> set BINARY_TEXT_ENCODINGS. matches env s data e"
    then have "find (matches env s data) BINARY_TEXT_ENCODINGS \<noteq> None"
      by (auto simp: find_None_iff)
    then obtain e where "find (matches env s data) BINARY_TEXT_ENCODINGS = Some e" by auto
    with a [of e] show "fst (handle_bin env sp p (Inr data) s st) = Inr True" by simp
  qed
qed

theorem handle_bin_first_matching_encoding_witness:
  "nested (demo_env []) ''xyz42'' BINARY_TEXT_ENCODINGS \<and>
   matches (demo_env []) ''xyz42'' (ascii ''the password is xyz42'') ''EUC-JP'' \<and>
   find (matches (demo_env []) ''xyz42'' (ascii ''the password is xyz42''))
     BINARY_TEXT_ENCODINGS = Some ''UTF-8'' \<and>
   handle_bin (demo_env []) [''root'', ''notes.txt''] [''root'', ''notes.txt'']
     (Inr (ascii ''the password is xyz42'')) ''xyz42'' initial =
     (Inr True,
      success (FoundWithEncoding ''xyz42'' [''root'', ''notes.txt''] ''UTF-8'') initial)"
proof -
  have n: "nested (demo_env []) ''xyz42'' BINARY_TEXT_ENCODINGS"
    by code_simp
  have m: "matches (demo_env []) ''xyz42'' (ascii ''the password is xyz42'') ''EUC-JP''"
    by code_simp
  have f: "find (matches (demo_env []) ''xyz42'' (ascii ''the password is xyz42''))
     BINARY_TEXT_ENCODINGS = Some ''UTF-8''"
    by code_simp
  from handle_bin_first_matching_encoding [OF n] n m f show ?thesis
    by blast
qed

section \<open>One file\<close>

lemma INDENT_LEVEL_checked [simp]: "INDENT_LEVEL (checked s p st) = INDENT_LEVEL st"
  by (simp add: checked_def success_def print_def)

lemma printed_checked:
  "printed (checked s p st) = printed st @ at_level (INDENT_LEVEL st) (filename_record s p)"
  by (simp add: checked_def filename_record_def success_def print_def)

lemma search_file_entered:
  "search_file rec env sp root s (name, f) st =
     (let st2 = entered s (root @ [name]) st in
      case is_tarfile env f of
           Inl e \<Rightarrow> (Inl e, st2)
         | Inr True \<Rightarrow> dedent (handle_tar rec env (sp @ [name]) (root @ [name]) f s st2)
         | Inr False \<Rightarrow>
      (case is_zipfile env f of
           Inl e \<Rightarrow> (Inl e, st2)
         | Inr True \<Rightarrow> dedent (handle_zip rec env (sp @ [name]) (root @ [name]) f s st2)
         | Inr False \<Rightarrow>
      (case is_7zfile env f of
           Inl e \<Rightarrow> (Inl e, st2)
         | Inr True \<Rightarrow> dedent (handle_7z rec env (sp @ [name]) (root @ [name]) f s st2)
         | Inr False \<Rightarrow>
      (case is_rarfile env f of
           Inl e \<Rightarrow> (Inl e, st2)
         | Inr True \<Rightarrow> dedent (handle_rar rec env (sp @ [name]) (root @ [name]) f s st2)
         | Inr False \<Rightarrow>
      (case handle_bin env (sp @ [name]) (root @ [name]) f s st2 of
           (Inl e, st3) \<Rightarrow> (Inl e, st3)
         | (Inr found, st3) \<Rightarrow>
             if \<not> found
             then dedent (handle_text env (sp @ [name]) (root @ [name]) f s st3)
             else dedent (Inr (), st3))))))"
  unfolding search_file_def Let_def fst_conv snd_conv checked_def [symmetric] entered_def
    INDENT_LEVEL_checked
  by (rule refl)

text \<open>
  Claim C8: the probes are tested in the order tar, zip, 7z, rar. A file that the tar
  probe accepts goes to \<open>handle_tar\<close> whatever the later probes would say; one that tar
  rejects and zip accepts goes to \<open>handle_zip\<close>; then 7z; then rar; a file that all four
  reject is matched by content (\<open>handle_bin\<close>, then \<open>handle_text\<close>).
\<close>

theorem classification_order:
  "(is_tarfile env f = Inr True \<longrightarrow>
      search_file rec env sp root s (name, f) st =
        dedent (handle_tar rec env (sp @ [name]) (root @ [name]) f s (entered s (root @ [name]) st))) \<and>
   (is_tarfile env f = Inr False \<and> is_zipfile env f = Inr True \<longrightarrow>
      search_file rec env sp root s (name, f) st =
        dedent (handle_zip rec env (sp @ [name]) (root @ [name]) f s (entered s (root @ [name]) st))) \<and>
   (is_tarfile env f = Inr False \<and> is_zipfile env f = Inr False \<and> is_7zfile env f = Inr True \<longrightarrow>
      search_file rec env sp root s (name, f) st =
        dedent (handle_7z rec env (sp @ [name]) (root @ [name]) f s (entered s (root @ [name]) st))) \<and>
   (is_tarfile env f = Inr False \<and> is_zipfile env f = Inr False \<and> is_7zfile env f = Inr False \<and>
    is_rarfile env f = Inr True \<longrightarrow>
      search_file rec env sp root s (name, f) st =
        dedent (handle_rar rec env (sp @ [name]) (root @ [name]) f s (entered s (root @ [name]) st))) \<and>
   (is_tarfile env f = Inr False \<and> is_zipfile env f = Inr False \<and> is_7zfile env f = Inr False \<and>
    is_rarfile env f = Inr False \<longrightarrow>
      search_file rec env sp root s (name, f) st =
        (case handle_bin env (sp @ [name]) (root @ [name]) f s (entered s (root @ [name]) st) of
           (Inl e, st3) \<Rightarrow> (Inl e, st3)
         | (Inr found, st3) \<Rightarrow>
             if found then dedent (Inr (), st3)
             else dedent (handle_text env (sp @ [name]) (root @ [name]) f s st3)))"
  by (simp add: search_file_entered split: prod.splits sum.splits)

lemma handle_bin_loop_False:
  "fst (handle_bin_loop env p s data encs st) = Inr False \<Longrightarrow>
   handle_bin_loop env p s data encs st = (Inr False, st)"
  by (induction encs) (auto split: sum.splits if_splits)

lemma handle_bin_False:
  "fst (handle_bin env sp p f s st) = Inr False \<Longrightarrow> handle_bin env sp p f s st = (Inr False, st)"
  by (auto simp: handle_bin_def handle_bin_loop_False split: sum.splits)

lemma leave_entered:
  "(entered s p st)\<lparr>INDENT_LEVEL := INDENT_LEVEL (entered s p st) - 1\<rparr> = checked s p st"
  by (cases st) (simp add: entered_def checked_def success_def print_def)

text \<open>
  Claim C9: when the bytes of a file do not decode, \<open>handle_text\<close> returns False
  and changes nothing; and the loop body for such a file, when no probe accepts it and
  the binary test finds nothing, returns normally, so that the traversal goes on.
\<close>

theorem handle_text_decode_failure:
  assumes "read_text env data = Inl UnicodeDecodeError"
  shows "handle_text env sp p (Inr data) s st = (Inr False, st) \<and>
         (is_tarfile env (Inr data) = Inr False \<and> is_zipfile env (Inr data) = Inr False \<and>
          is_7zfile env (Inr data) = Inr False \<and> is_rarfile env (Inr data) = Inr False \<and>
          fst (handle_bin env (sp @ [name]) (root @ [name]) (Inr data) s
                 (entered s (root @ [name]) st)) = Inr False \<longrightarrow>
          search_file rec env sp root s (name, Inr data) st = (Inr (), checked s (root @ [name]) st))"
proof (intro conjI impI)
  show t: "handle_text env sp p (Inr data) s st = (Inr False, st)" for sp p st
    using assms by (simp add: handle_text_def)
  assume other: "is_tarfile env (Inr data) = Inr False \<and> is_zipfile env (Inr data) = Inr False \<and>
          is_7zfile env (Inr data) = Inr False \<and> is_rarfile env (Inr data) = Inr False \<and>
          fst (handle_bin env (sp @ [name]) (root @ [name]) (Inr data) s
                 (entered s (root @ [name]) st)) = Inr False"
  then have "handle_bin env (sp @ [name]) (root @ [name]) (Inr data) s (entered s (root @ [name]) st) =
      (Inr False, entered s (root @ [name]) st)"
    by (simp add: handle_bin_False)
  with other show "search_file rec env sp root s (name, Inr data) st =
      (Inr (), checked s (root @ [name]) st)"
    by (simp add: search_file_entered t dedent_def leave_entered)
qed

lemma handle_bin_loop_encodable:
  assumes "list_all (encodable env s) encs"
  shows "handle_bin_loop env p s data encs st =
     (case find (matches env s data) encs of
        Some e \<Rightarrow> (Inr True, success (FoundWithEncoding s p e) st)
      | None \<Rightarrow> (Inr False, st))"
  using assms
proof (induction encs)
  case Nil
  show ?case by simp
next
  case (Cons a encs)
  then obtain bs where bs: "encode env a s = Inr bs"
    by (auto simp: encodable_def split: sum.splits)
  with Cons show ?case by (simp add: matches_Inr)
qed

lemma printed_dedent [simp]: "printed (snd (dedent r)) = printed (snd r)"
  by (cases r) (simp add: dedent_def split: sum.splits)

lemma printed_entered:
  "printed (entered s p st) = printed st @ at_level (INDENT_LEVEL st) (filename_record s p)"
  by (simp add: entered_def printed_checked)

lemma INDENT_LEVEL_entered [simp]: "INDENT_LEVEL (entered s p st) = INDENT_LEVEL st + 1"
  by (simp add: entered_def)

lemma printed_success: "printed (success m st) = printed st @ [(GREEN, INDENT_LEVEL st, m)]"
  by (simp add: success_def print_def)

lemma handle_bin_loop_prints:
  "\<exists>m. printed (snd (handle_bin_loop env p s data encs st)) =
         printed st @ at_level (INDENT_LEVEL st) m \<and>
       (fst (handle_bin_loop env p s data encs st) = Inr False \<longrightarrow> m = None)"
proof (induction encs)
  case Nil
  show ?case by (auto intro: exI [of _ None])
next
  case (Cons a encs)
  show ?case
  proof (cases "encode env a s")
    case (Inl e)
    then show ?thesis by (auto intro: exI [of _ None])
  next
    case (Inr bs)
    show ?thesis
    proof (cases "sublist bs data")
      case True
      with Inr show ?thesis
        by (auto simp: printed_success intro: exI [of _ "Some (FoundWithEncoding s p a)"])
    next
      case False
      with Inr Cons show ?thesis by simp
    qed
  qed
qed

lemma handle_text_prints:
  "\<exists>m. printed (snd (handle_text env sp p f s st)) = printed st @ at_level (INDENT_LEVEL st) m"
proof (cases "fst (handle_text env sp p f s st) = Inr True")
  case True
  then have "snd (handle_text env sp p f s st) = success (FoundInText s p) st"
    by (auto simp: handle_text_def split: sum.splits if_splits)
  then show ?thesis
    by (auto simp: printed_success intro: exI [of _ "Some (FoundInText s p)"])
next
  case False
  then have "snd (handle_text env sp p f s st) = st"
    by (auto simp: handle_text_def split: sum.splits if_splits)
  then show ?thesis by (auto intro: exI [of _ None])
qed

lemma other_file_prints:
  assumes "is_tarfile env f = Inr False" "is_zipfile env f = Inr False"
    "is_7zfile env f = Inr False" "is_rarfile env f = Inr False"
  shows "\<exists>m. printed (snd (search_file rec env sp root s (name, f) st)) =
           printed st @ at_level (INDENT_LEVEL st) (filename_record s (root @ [name])) @
             at_level (INDENT_LEVEL st + 1) m"
proof -
  let ?p = "root @ [name]"
  let ?st2 = "entered s ?p st"
  obtain x st3 where hb: "handle_bin env (sp @ [name]) ?p f s ?st2 = (x, st3)"
    by (cases "handle_bin env (sp @ [name]) ?p f s ?st2")
  obtain m where m: "printed st3 = printed ?st2 @ at_level (INDENT_LEVEL st + 1) m"
    and none: "x = Inr False \<longrightarrow> m = None"
  proof (cases f)
    case (Inl e)
    with hb have "printed st3 = printed ?st2 @ at_level (INDENT_LEVEL st + 1) None" "x \<noteq> Inr False"
      by (auto simp: handle_bin_def)
    then show ?thesis by (intro that [of None]) auto
  next
    case (Inr data)
    with hb handle_bin_loop_prints [of env ?p s data BINARY_TEXT_ENCODINGS ?st2]
    show ?thesis by (auto simp: handle_bin_def intro: that)
  qed
  show ?thesis
  proof (cases "x = Inr False")
    case True
    with none have "m = None" by simp
    with m have st3: "printed st3 = printed ?st2" by simp
    from True hb have "st3 = ?st2" using handle_bin_False [of env "sp @ [name]" ?p f s ?st2] by simp
    with handle_text_prints [of env "sp @ [name]" ?p f s ?st2]
    obtain m' where "printed (snd (handle_text env (sp @ [name]) ?p f s st3)) =
         printed ?st2 @ at_level (INDENT_LEVEL st + 1) m'"
      by auto
    with assms hb True show ?thesis
      by (auto simp: search_file_entered printed_entered)
  next
    case False
    with assms hb m show ?thesis
      by (cases x) (auto simp: search_file_entered printed_entered)
  qed
qed

text \<open>
  Claim C7: for a file that all four probes reject, the lines printed are the filename
  record (when the path contains the string) followed by at most one content record,
  one level deeper. When every encoding can encode the string, the content record is
  that of \<open>content_record\<close>: the binary match if there is one, the text match only
  otherwise. The content record does not depend on whether the filename matched.
\<close>

theorem other_file_records:
  assumes "is_tarfile env f = Inr False" "is_zipfile env f = Inr False"
    "is_7zfile env f = Inr False" "is_rarfile env f = Inr False"
  shows "(\<exists>m. printed (snd (search_file rec env sp root s (name, f) st)) =
           printed st @ at_level (INDENT_LEVEL st) (filename_record s (root @ [name])) @
             at_level (INDENT_LEVEL st + 1) m) \<and>
         (list_all (encodable env s) BINARY_TEXT_ENCODINGS \<longrightarrow>
          printed (snd (search_file rec env sp root s (name, f) st)) =
           printed st @ at_level (INDENT_LEVEL st) (filename_record s (root @ [name])) @
             at_level (INDENT_LEVEL st + 1) (content_record env s (root @ [name]) f))"
proof (intro conjI impI)
  show "\<exists>m. printed (snd (search_file rec env sp root s (name, f) st)) =
           printed st @ at_level (INDENT_LEVEL st) (filename_record s (root @ [name])) @
             at_level (INDENT_LEVEL st + 1) m"
    using assms by (rule other_file_prints)
  assume enc: "list_all (encodable env s) BINARY_TEXT_ENCODINGS"
  show "printed (snd (search_file rec env sp root s (name, f) st)) =
           printed st @ at_level (INDENT_LEVEL st) (filename_record s (root @ [name])) @
             at_level (INDENT_LEVEL st + 1) (content_record env s (root @ [name]) f)"
  proof (cases f)
    case (Inl e)
    with assms show ?thesis
      by (simp add: search_file_entered handle_bin_def content_record_def printed_entered)
  next
    case (Inr data)
    let ?p = "root @ [name]"
    let ?st2 = "entered s ?p st"
    have hb: "handle_bin env (sp @ [name]) ?p f s ?st2 =
       (case find (matches env s data) BINARY_TEXT_ENCODINGS of
          Some e \<Rightarrow> (Inr True, success (FoundWithEncoding s ?p e) ?st2)
        | None \<Rightarrow> (Inr False, ?st2))"
      using enc Inr by (simp add: handle_bin_def handle_bin_loop_encodable)
    show ?thesis
    proof (cases "find (matches env s data) BINARY_TEXT_ENCODINGS")
      case (Some e)
      with assms hb Inr show ?thesis
        by (simp add: search_file_entered content_record_def printed_entered printed_success)
    next
      case None
      with assms hb Inr show ?thesis
        by (simp add: search_file_entered content_record_def printed_entered printed_success
            handle_text_def split: sum.splits)
    qed
  qed
qed

theorem other_file_records_witness:
  "is_tarfile (demo_env []) (Inr (ascii ''my notes'')) = Inr False \<and>
   is_zipfile (demo_env []) (Inr (ascii ''my notes'')) = Inr False \<and>
   is_7zfile (demo_env []) (Inr (ascii ''my notes'')) = Inr False \<and>
   is_rarfile (demo_env []) (Inr (ascii ''my notes'')) = Inr False \<and>
   list_all (encodable (demo_env []) ''notes'') BINARY_TEXT_ENCODINGS \<and>
   read_text (demo_env []) (ascii ''my notes'') = Inr ''my notes'' \<and>
   printed (snd (search_file (search 2 (demo_env [])) (demo_env []) [''root''] [''root''] ''notes''
       (''notes.txt'', Inr (ascii ''my notes'')) initial)) =
     [(GREEN, 0, FoundInFilename ''notes'' [''root'', ''notes.txt'']),
      (GREEN, 1, FoundWithEncoding ''notes'' [''root'', ''notes.txt''] ''UTF-8'')]"
proof -
  have a: "is_tarfile (demo_env []) (Inr (ascii ''my notes'')) = Inr False"
    and b: "is_zipfile (demo_env []) (Inr (ascii ''my notes'')) = Inr False"
    and c: "is_7zfile (demo_env []) (Inr (ascii ''my notes'')) = Inr False"
    and d: "is_rarfile (demo_env []) (Inr (ascii ''my notes'')) = Inr False"
    and e: "list_all (encodable (demo_env []) ''notes'') BINARY_TEXT_ENCODINGS"
    and t: "read_text (demo_env []) (ascii ''my notes'') = Inr ''my notes''"
    by code_simp+
  have n: "filename_record ''notes'' ([''root''] @ [''notes.txt'']) =
      Some (FoundInFilename ''notes'' [''root'', ''notes.txt''])"
    by code_simp
  have m: "content_record (demo_env []) ''notes'' ([''root''] @ [''notes.txt''])
      (Inr (ascii ''my notes'')) = Some (FoundWithEncoding ''notes'' [''root'', ''notes.txt''] ''UTF-8'')"
    by code_simp
  from other_file_records [OF a b c d, THEN conjunct2, rule_format, OF e,
      of "search 2 (demo_env [])" "[''root'']" "[''root'']" "''notes.txt''" initial]
  have "printed (snd (search_file (search 2 (demo_env [])) (demo_env []) [''root''] [''root''] ''notes''
       (''notes.txt'', Inr (ascii ''my notes'')) initial)) =
     [(GREEN, 0, FoundInFilename ''notes'' [''root'', ''notes.txt'']),
      (GREEN, 1, FoundWithEncoding ''notes'' [''root'', ''notes.txt''] ''UTF-8'')]"
    unfolding n m by (simp add: initial_def)
  with a b c d e t show ?thesis by blast
qed

theorem handle_text_decode_failure_witness:
  "read_text (demo_env []) [255, 254] = Inl UnicodeDecodeError \<and>
   handle_text (demo_env []) [''root'', ''blob''] [''root'', ''blob''] (Inr [255, 254]) ''xyz42'' initial =
     (Inr False, initial)"
proof -
  have r: "read_text (demo_env []) [255, 254] = Inl UnicodeDecodeError"
    by code_simp
  from handle_text_decode_failure [OF r] r show ?thesis by blast
qed

theorem classification_order_witness:
  "is_tarfile ((demo_env [])\<lparr>is_zipfile := \<lambda>f. Inr True\<rparr>) (Inr (ascii ''TAR1'')) = Inr True \<and>
   is_zipfile ((demo_env [])\<lparr>is_zipfile := \<lambda>f. Inr True\<rparr>) (Inr (ascii ''TAR1'')) = Inr True \<and>
   search_file (search 2 (demo_env [])) ((demo_env [])\<lparr>is_zipfile := \<lambda>f. Inr True\<rparr>)
       [''root''] [''root''] ''x'' (''a'', Inr (ascii ''TAR1'')) initial =
     dedent (handle_tar (search 2 (demo_env [])) ((demo_env [])\<lparr>is_zipfile := \<lambda>f. Inr True\<rparr>)
       ([''root''] @ [''a'']) ([''root''] @ [''a'']) (Inr (ascii ''TAR1'')) ''x''
       (entered ''x'' ([''root''] @ [''a'']) initial))"
proof -
  have t: "is_tarfile ((demo_env [])\<lparr>is_zipfile := \<lambda>f. Inr True\<rparr>) (Inr (ascii ''TAR1'')) = Inr True"
    by code_simp
  have z: "is_zipfile ((demo_env [])\<lparr>is_zipfile := \<lambda>f. Inr True\<rparr>) (Inr (ascii ''TAR1'')) = Inr True"
    by simp
  from classification_order [THEN conjunct1, rule_format, OF t] t z show ?thesis by blast
qed

section \<open>The filename test\<close>

lemma grows_snd_dedent: "grows j a (snd r) \<Longrightarrow> grows j a (snd (dedent r))"
  by (cases r) (auto simp: dedent_def grows_def split: sum.splits)

lemma keeps_grows_dedent: "keeps st r \<Longrightarrow> grows (INDENT_LEVEL st) st (snd (dedent r))"
  by (rule grows_snd_dedent) (simp add: keeps_def)

lemma search_file_grows:
  assumes "\<And>sp p dir s st. keeps st (rec sp p dir s st)"
  shows "grows (INDENT_LEVEL st + 1) (entered s (root @ [name]) st)
           (snd (search_file rec env sp root s (name, f) st))"
proof -
  let ?p = "root @ [name]"
  let ?st2 = "entered s ?p st"
  let ?P = "\<lambda>r :: (exn + unit) \<times> state. grows (INDENT_LEVEL ?st2) ?st2 (snd r)"
  have other: "?P
     (case handle_bin env (sp @ [name]) ?p f s ?st2 of
        (Inl e, st3) \<Rightarrow> (Inl e, st3)
      | (Inr found, st3) \<Rightarrow>
          if \<not> found
          then dedent (handle_text env (sp @ [name]) ?p f s st3)
          else dedent (Inr (), st3))"
  proof -
    obtain x st3 where h: "handle_bin env (sp @ [name]) ?p f s ?st2 = (x, st3)"
      by (cases "handle_bin env (sp @ [name]) ?p f s ?st2")
    have k: "keeps ?st2 (x, st3)"
      using handle_bin_keeps [of ?st2 env "sp @ [name]" ?p f s] h by simp
    then have g: "grows (INDENT_LEVEL ?st2) ?st2 st3" by (simp add: keeps_def)
    show ?thesis
    proof (cases x)
      case (Inl e)
      with g h show ?thesis by simp
    next
      case (Inr found)
      with k have i: "INDENT_LEVEL st3 = INDENT_LEVEL ?st2" by (simp add: keeps_def)
      have "grows (INDENT_LEVEL st3) st3 (snd (dedent (handle_text env (sp @ [name]) ?p f s st3)))"
        by (rule keeps_grows_dedent) (rule handle_text_keeps)
      with g have "grows (INDENT_LEVEL ?st2) ?st2
          (snd (dedent (handle_text env (sp @ [name]) ?p f s st3)))"
        unfolding i by (rule grows_trans)
      moreover have "grows (INDENT_LEVEL ?st2) ?st2 (snd (dedent (Inr (), st3)))"
        using g by (rule grows_snd_dedent [where r = "(Inr (), st3)", simplified])
      ultimately show ?thesis using h Inr by simp
    qed
  qed
  have raised: "?P (Inl e, ?st2)" for e by simp
  have tar: "?P (dedent (handle_tar rec env (sp @ [name]) ?p f s ?st2))"
    by (rule keeps_grows_dedent, rule handle_tar_keeps, rule assms)
  have zip: "?P (dedent (handle_zip rec env (sp @ [name]) ?p f s ?st2))"
    by (rule keeps_grows_dedent, rule handle_zip_keeps, rule assms)
  have sevenz: "?P (dedent (handle_7z rec env (sp @ [name]) ?p f s ?st2))"
    by (rule keeps_grows_dedent, rule handle_7z_keeps, rule assms)
  have rar: "?P (dedent (handle_rar rec env (sp @ [name]) ?p f s ?st2))"
    by (rule keeps_grows_dedent, rule handle_rar_keeps, rule assms)
  have "?P (search_file rec env sp root s (name, f) st)"
    unfolding search_file_entered Let_def
    by (intro probe_cases [where P = ?P] raised tar zip sevenz rar other)
  then show ?thesis by simp
qed

lemma found_paths_entered:
  "found_paths (entered s p st) =
     found_paths st @ filename_matches (at_level (INDENT_LEVEL st) (filename_record s p))"
  by (simp add: entered_def checked_def filename_record_def success_def print_def)

text \<open>
  Claim C1, as the code has it: the filename test of a file is the substring test of
  the search string against the real path \<open>root / file\<close> of the file (for a file
  inside an archive, its path under the temporary directory); the semantic path \<open>sp\<close>
  takes no part in it. Whatever the content of the file and however its processing
  ends, the lines printed for it are the filename record, exactly when the real path
  contains the string, followed by lines that are all printed one level deeper (the
  content record of the file, or what the search inside the archive prints); and
  \<^verbatim>\<open>found_paths\<close> receives the path of the file once, exactly in that case.
\<close>

theorem filename_test_on_real_path:
  "\<exists>ls. printed (snd (search_file (search d env) env sp root s (name, f) st)) =
           printed st @ at_level (INDENT_LEVEL st) (filename_record s (root @ [name])) @ ls \<and>
        found_paths (snd (search_file (search d env) env sp root s (name, f) st)) =
           found_paths st @
           filename_matches (at_level (INDENT_LEVEL st) (filename_record s (root @ [name]))) @
           filename_matches ls \<and>
        list_all (\<lambda>l. INDENT_LEVEL st < fst (snd l)) ls"
proof -
  have "grows (INDENT_LEVEL st + 1) (entered s (root @ [name]) st)
           (snd (search_file (search d env) env sp root s (name, f) st))"
    by (rule search_file_grows) (rule search_keeps)
  then show ?thesis
    unfolding grows_def printed_entered found_paths_entered
    by (elim exE conjE, rule_tac x = ls in exI) (auto simp: list_all_iff)
qed

text \<open>
  Claim C1 as stated fails: \<^verbatim>\<open>root/outer.zip\<close> holds \<^verbatim>\<open>hit.txt\<close>, whose semantic path
  \<^verbatim>\<open>root/outer.zip/hit.txt\<close> contains \<^verbatim>\<open>outer\<close>. The search for \<^verbatim>\<open>outer\<close> reports the
  archive and not \<^verbatim>\<open>hit.txt\<close>; the search for \<^verbatim>\<open>tmp\<close>, which no semantic path contains,
  reports \<^verbatim>\<open>hit.txt\<close> under its temporary path.
\<close>

theorem semantic_path_not_tested:
  "main 3 (demo_env [(ascii ''PK1'', Inr [File ''hit.txt'' (Inr (ascii ''hello''))])]) ''outer''
       [''root''] (Some [File ''outer.zip'' (Inr (ascii ''PK1''))]) =
     (0, \<lparr>found_paths = [''root/outer.zip''], INDENT_LEVEL = 0,
          printed = [(Plain, 0, Entering [''root'']),
                     (GREEN, 0, FoundInFilename ''outer'' [''root'', ''outer.zip'']),
                     (Plain, 1, Extracting Zip [''root'', ''outer.zip'']),
                     (Plain, 1, Entering [''root'', ''outer.zip''])],
          tempdirs = 1\<rparr>) \<and>
   sublist ''outer'' (str [''root'', ''outer.zip'', ''hit.txt'']) \<and>
   found_paths (snd (main 3 (demo_env [(ascii ''PK1'', Inr [File ''hit.txt'' (Inr (ascii ''hello''))])])
       ''tmp'' [''root''] (Some [File ''outer.zip'' (Inr (ascii ''PK1''))]))) = [''/tmp/x/hit.txt'']"
  by code_simp


section \<open>The empty search string\<close>

lemma sublist_Nil_str: "filename_record [] p = Some (FoundInFilename [] p)"
  by (simp add: filename_record_def)

text \<open>
  Claim C10: with the empty search string, the first line printed for a file is its
  filename record and its path is appended to \<^verbatim>\<open>found_paths\<close>; a readable file that all
  four probes reject gets a binary record with encoding UTF-8 and nothing else
  (\<open>handle_text\<close> is not called), whatever its bytes, the empty file included. The
  codec is a parameter: UTF-8 encodes the empty string as no bytes.
\<close>

theorem empty_string_matches_everything:
  "(\<exists>ls fs. printed (snd (search_file (search d env) env sp root [] (name, f) st)) =
             printed st @ (GREEN, INDENT_LEVEL st, FoundInFilename [] (root @ [name])) # ls \<and>
           found_paths (snd (search_file (search d env) env sp root [] (name, f) st)) =
             found_paths st @ str (root @ [name]) # fs) \<and>
   (is_tarfile env (Inr data) = Inr False \<and> is_zipfile env (Inr data) = Inr False \<and>
    is_7zfile env (Inr data) = Inr False \<and> is_rarfile env (Inr data) = Inr False \<and>
    encode env ''UTF-8'' [] = Inr [] \<longrightarrow>
    search_file (search d env) env sp root [] (name, Inr data) st =
      (Inr (),
       st\<lparr>found_paths := found_paths st @ [str (root @ [name])],
          printed := printed st @
            [(GREEN, INDENT_LEVEL st, FoundInFilename [] (root @ [name])),
             (GREEN, INDENT_LEVEL st + 1, FoundWithEncoding [] (root @ [name]) ''UTF-8'')]\<rparr>))"
proof (intro conjI impI)
  have "grows (INDENT_LEVEL st + 1) (entered [] (root @ [name]) st)
           (snd (search_file (search d env) env sp root [] (name, f) st))"
    by (rule search_file_grows) (rule search_keeps)
  then show "\<exists>ls fs. printed (snd (search_file (search d env) env sp root [] (name, f) st)) =
             printed st @ (GREEN, INDENT_LEVEL st, FoundInFilename [] (root @ [name])) # ls \<and>
           found_paths (snd (search_file (search d env) env sp root [] (name, f) st)) =
             found_paths st @ str (root @ [name]) # fs"
    unfolding grows_def printed_entered found_paths_entered sublist_Nil_str
    by auto
next
  assume a: "is_tarfile env (Inr data) = Inr False \<and> is_zipfile env (Inr data) = Inr False \<and>
    is_7zfile env (Inr data) = Inr False \<and> is_rarfile env (Inr data) = Inr False \<and>
    encode env ''UTF-8'' [] = Inr []"
  then have t: "is_tarfile env (Inr data) = Inr False" and z: "is_zipfile env (Inr data) = Inr False"
    and v: "is_7zfile env (Inr data) = Inr False" and r: "is_rarfile env (Inr data) = Inr False"
    and u: "encode env ''UTF-8'' [] = Inr []"
    by simp_all
  let ?st2 = "entered [] (root @ [name]) st"
  have hb: "handle_bin env (sp @ [name]) (root @ [name]) (Inr data) [] ?st2 =
      (Inr True, success (FoundWithEncoding [] (root @ [name]) ''UTF-8'') ?st2)"
    using u by (simp add: handle_bin_def BINARY_TEXT_ENCODINGS_def)
  have sf: "search_file (search d env) env sp root [] (name, Inr data) st =
      dedent (Inr (), success (FoundWithEncoding [] (root @ [name]) ''UTF-8'') ?st2)"
    unfolding search_file_entered Let_def t z v r hb by simp
  have "dedent (Inr (), success (FoundWithEncoding [] (root @ [name]) ''UTF-8'') ?st2) =
      (Inr (),
       st\<lparr>found_paths := found_paths st @ [str (root @ [name])],
          printed := printed st @
            [(GREEN, INDENT_LEVEL st, FoundInFilename [] (root @ [name])),
             (GREEN, INDENT_LEVEL st + 1, FoundWithEncoding [] (root @ [name]) ''UTF-8'')]\<rparr>)"
    by (cases st) (simp add: dedent_def entered_def checked_def success_def print_def)
  with sf show "search_file (search d env) env sp root [] (name, Inr data) st =
      (Inr (),
       st\<lparr>found_paths := found_paths st @ [str (root @ [name])],
          printed := printed st @
            [(GREEN, INDENT_LEVEL st, FoundInFilename [] (root @ [name])),
             (GREEN, INDENT_LEVEL st + 1, FoundWithEncoding [] (root @ [name]) ''UTF-8'')]\<rparr>)"
    by simp
qed

theorem empty_string_matches_everything_witness:
  "is_tarfile (demo_env []) (Inr []) = Inr False \<and> is_zipfile (demo_env []) (Inr []) = Inr False \<and>
   is_7zfile (demo_env []) (Inr []) = Inr False \<and> is_rarfile (demo_env []) (Inr []) = Inr False \<and>
   encode (demo_env []) ''UTF-8'' [] = Inr [] \<and>
   search_file (search 2 (demo_env [])) (demo_env []) [''root''] [''root''] [] (''empty'', Inr []) initial =
     (Inr (),
      initial\<lparr>found_paths := found_paths initial @ [str ([''root''] @ [''empty''])],
          printed := printed initial @
            [(GREEN, INDENT_LEVEL initial, FoundInFilename [] ([''root''] @ [''empty''])),
             (GREEN, INDENT_LEVEL initial + 1, FoundWithEncoding [] ([''root''] @ [''empty'']) ''UTF-8'')]\<rparr>)"
proof -
  have a: "is_tarfile (demo_env []) (Inr []) = Inr False \<and> is_zipfile (demo_env []) (Inr []) = Inr False \<and>
   is_7zfile (demo_env []) (Inr []) = Inr False \<and> is_rarfile (demo_env []) (Inr []) = Inr False \<and>
   encode (demo_env []) ''UTF-8'' [] = Inr []"
    by code_simp
  from empty_string_matches_everything [THEN conjunct2, rule_format, OF a] a
  show ?thesis by blast
qed

section \<open>Exceptions\<close>

lemma for_each_raises:
  "fst (for_each body xs st) = Inr () \<Longrightarrow>
   fst (body x (snd (for_each body xs st))) = Inl e \<Longrightarrow>
   fst (for_each body (xs @ x # ys) st) = Inl e"
proof (induction xs arbitrary: st)
  case Nil
  then show ?case by (cases "body x st") simp
next
  case (Cons a xs)
  then show ?case by (cases "body a st") (auto split: sum.splits)
qed

text \<open>
  Claim C5, as the code has it: no \<^verbatim>\<open>try\<close> surrounds the probes or \<open>handle_bin\<close>. An
  exception of the first probe that raises, of opening the file for the binary test, or
  of encoding the search string ends the processing of the file with that exception; an
  exception of the loop body ends the loop, and with it \<^verbatim>\<open>search\<close>. Of the exceptions of
  reading a file as text, \<open>UnicodeDecodeError\<close> alone gives False.
\<close>

theorem errors_propagate:
  "(is_tarfile env f = Inl e \<longrightarrow>
      search_file rec env sp root s (name, f) st = (Inl e, entered s (root @ [name]) st)) \<and>
   (is_tarfile env f = Inr False \<and> is_zipfile env f = Inl e \<longrightarrow>
      search_file rec env sp root s (name, f) st = (Inl e, entered s (root @ [name]) st)) \<and>
   (is_tarfile env f = Inr False \<and> is_zipfile env f = Inr False \<and> is_7zfile env f = Inl e \<longrightarrow>
      search_file rec env sp root s (name, f) st = (Inl e, entered s (root @ [name]) st)) \<and>
   (is_tarfile env f = Inr False \<and> is_zipfile env f = Inr False \<and> is_7zfile env f = Inr False \<and>
    is_rarfile env f = Inl e \<longrightarrow>
      search_file rec env sp root s (name, f) st = (Inl e, entered s (root @ [name]) st)) \<and>
   (is_tarfile env f = Inr False \<and> is_zipfile env f = Inr False \<and> is_7zfile env f = Inr False \<and>
    is_rarfile env f = Inr False \<and>
    fst (handle_bin env (sp @ [name]) (root @ [name]) f s (entered s (root @ [name]) st)) = Inl e \<longrightarrow>
      fst (search_file rec env sp root s (name, f) st) = Inl e) \<and>
   handle_bin env sp p (Inl e) s st = (Inl e, st) \<and>
   (encode env ''UTF-8'' s = Inr bs \<and> \<not> sublist bs data \<and> encode env ''EUC-JP'' s = Inl e \<longrightarrow>
      handle_bin env sp p (Inr data) s st = (Inl e, st)) \<and>
   (read_text env data = Inl e \<and> e \<noteq> UnicodeDecodeError \<longrightarrow>
      handle_text env sp p (Inr data) s st = (Inl e, st)) \<and>
   (read_text env data = Inl UnicodeDecodeError \<longrightarrow>
      handle_text env sp p (Inr data) s st = (Inr False, st)) \<and>
   (fst (for_each body xs st) = Inr () \<and> fst (body x (snd (for_each body xs st))) = Inl e \<longrightarrow>
      fst (for_each body (xs @ x # ys) st) = Inl e) \<and>
   (fst (search_file (search d env) env sp p s (name, f) (info (Entering sp) st)) = Inl e \<longrightarrow>
      fst (search (Suc d) env sp p (Some (File name f # es)) s st) = Inl e)"
proof (intro conjI impI)
  assume "fst (search_file (search d env) env sp p s (name, f) (info (Entering sp) st)) = Inl e"
  then show "fst (search (Suc d) env sp p (Some (File name f # es)) s st) = Inl e"
    by (cases "search_file (search d env) env sp p s (name, f) (info (Entering sp) st)")
      (simp add: os_walk_def)
next
  assume "fst (for_each body xs st) = Inr () \<and> fst (body x (snd (for_each body xs st))) = Inl e"
  then show "fst (for_each body (xs @ x # ys) st) = Inl e"
    by (simp add: for_each_raises)
next
  assume "is_tarfile env f = Inr False \<and> is_zipfile env f = Inr False \<and>
    is_7zfile env f = Inr False \<and> is_rarfile env f = Inr False \<and>
    fst (handle_bin env (sp @ [name]) (root @ [name]) f s (entered s (root @ [name]) st)) = Inl e"
  then show "fst (search_file rec env sp root s (name, f) st) = Inl e"
    by (cases "handle_bin env (sp @ [name]) (root @ [name]) f s (entered s (root @ [name]) st)")
      (simp add: search_file_entered)
qed (simp_all add: search_file_entered handle_bin_def handle_text_def BINARY_TEXT_ENCODINGS_def)

theorem errors_propagate_witness:
  "is_tarfile (demo_env []) (Inl OSError) = Inl OSError \<and>
   search_file (search 2 (demo_env [])) (demo_env []) [''root''] [''root''] ''xyz42''
       (''locked'', Inl OSError) initial =
     (Inl OSError, entered ''xyz42'' ([''root''] @ [''locked'']) initial) \<and>
   encode ((demo_env [])\<lparr>encode := \<lambda>encoding s.
       if encoding = ''UTF-8'' then Inr [194, 128] else Inl UnicodeEncodeError\<rparr>)
     ''UTF-8'' [CHR 0x80] = Inr [194, 128] \<and>
   handle_bin ((demo_env [])\<lparr>encode := \<lambda>encoding s.
       if encoding = ''UTF-8'' then Inr [194, 128] else Inl UnicodeEncodeError\<rparr>)
     [''root'', ''a''] [''root'', ''a''] (Inr (ascii ''abc'')) [CHR 0x80] initial =
     (Inl UnicodeEncodeError, initial)"
proof -
  let ?env = "(demo_env [])\<lparr>encode := \<lambda>encoding s.
       if encoding = ''UTF-8'' then Inr [194, 128] else Inl UnicodeEncodeError\<rparr>"
  have a: "is_tarfile (demo_env []) (Inl OSError) = Inl OSError"
    by code_simp
  have b: "encode ?env ''UTF-8'' [CHR 0x80] = Inr [194, 128] \<and>
      \<not> sublist [194, 128] (ascii ''abc'') \<and>
      encode ?env ''EUC-JP'' [CHR 0x80] = Inl UnicodeEncodeError"
    by code_simp
  note t = errors_propagate [where env = "demo_env []" and f = "Inl OSError" and e = OSError,
      THEN conjunct1, rule_format, OF a]
  note u = errors_propagate [where env = ?env and e = UnicodeEncodeError,
      THEN conjunct2, THEN conjunct2, THEN conjunct2, THEN conjunct2, THEN conjunct2,
      THEN conjunct2, THEN conjunct1, rule_format, OF b]
  from t u a b show ?thesis by blast
qed

text \<open>
  Claim C5 as stated fails: with an unreadable file in the directory, the run ends with
  the exception of the first probe; the file is not classified as other, and the file
  after it, which contains the string, is not searched.
\<close>

theorem unreadable_file_aborts:
  "search 3 (demo_env []) [''root''] [''root'']
       (Some [File ''locked'' (Inl OSError), File ''notes.txt'' (Inr (ascii ''xyz42''))])
       ''xyz42'' initial =
     (Inl OSError,
      \<lparr>found_paths = [], INDENT_LEVEL = 1, printed = [(Plain, 0, Entering [''root''])],
         tempdirs = 0\<rparr>)"
  by code_simp

section \<open>Exit status\<close>

text \<open>
  Claim C4, as the code has it: the script validates nothing and never calls \<open>error\<close>.
  For a root path that is not a directory the walk is empty: one line is printed and
  the exit status is 0. The exit status is 0 exactly when \<^verbatim>\<open>search\<close> returns (or
  \<open>SystemExit 0\<close> escapes), and non-zero when any other exception escapes.
\<close>

theorem exit_status:
  "main (Suc d) env s p None = (0, info (Entering p) initial) \<and>
   (fst (main limit env s p dir) = 0) =
     (fst (search limit env p p dir s initial) = Inr () \<or>
      fst (search limit env p p dir s initial) = Inl (SystemExit 0))"
  by (auto simp: main_def os_walk_def split: prod.splits sum.splits exn.splits)

text \<open>
  Claim C4 as stated fails: the search below a path that does not exist exits with
  status 0, without an error message.
\<close>

theorem missing_root_exits_zero:
  "main 3 (demo_env []) ''xyz42'' [''nowhere''] None =
     (0, \<lparr>found_paths = [], INDENT_LEVEL = 0, printed = [(Plain, 0, Entering [''nowhere''])],
           tempdirs = 0\<rparr>)"
  by code_simp

section \<open>Extraction failures\<close>

text \<open>
  Claim C2 fails on the code for zip: \<open>handle_zip\<close> has no \<^verbatim>\<open>try\<close>. A zip file whose
  extraction raises \<open>BadZipFile\<close> ends the run with exit status 1, without a warning,
  and its sibling \<^verbatim>\<open>notes.txt\<close> is not searched. The same directory with a tar file
  whose extraction raises \<open>EOFError\<close> gives the warning and the match in the sibling.
\<close>

theorem zip_extraction_failure_aborts:
  "main 3 (demo_env [(ascii ''PK-bad'', Inl BadZipFile)]) ''xyz42'' [''root'']
       (Some [File ''bad.zip'' (Inr (ascii ''PK-bad'')), File ''notes.txt'' (Inr (ascii ''xyz42''))]) =
     (1, \<lparr>found_paths = [], INDENT_LEVEL = 1,
           printed = [(Plain, 0, Entering [''root'']),
                      (Plain, 1, Extracting Zip [''root'', ''bad.zip''])],
           tempdirs = 1\<rparr>) \<and>
   main 3 (demo_env [(ascii ''TAR-bad'', Inl EOFError)]) ''xyz42'' [''root'']
       (Some [File ''bad.tar'' (Inr (ascii ''TAR-bad'')), File ''notes.txt'' (Inr (ascii ''xyz42''))]) =
     (0, \<lparr>found_paths = [], INDENT_LEVEL = 0,
           printed = [(Plain, 0, Entering [''root'']),
                      (Plain, 1, Extracting Tar [''root'', ''bad.tar'']),
                      (YELLOW, 1, FailedToExtract Tar [''root'', ''bad.tar'']),
                      (GREEN, 1, FoundWithEncoding ''xyz42'' [''root'', ''notes.txt''] ''UTF-8'')],
           tempdirs = 1\<rparr>)"
  by code_simp

end
